theory Spec2Isabelle
  imports Complex_Main
begin

section \<open>WCA rankings filter: the core of \<^verbatim>\<open>filter.py\<close>\<close>

text \<open>
  The program loads two tables (competition results and country ranks), joins them,
  looks a competitor up by event, region and rank, and renders the record with a few
  formatting functions. This theory embeds the join, the rank query and the formatters
  as HOL functions and proves the properties stated about them.

  Python integers are unbounded and are modelled by \<^typ>\<open>int\<close>; Python's \<^verbatim>\<open>divmod\<close> on
  integers is floor division, which is what \<open>div\<close> and \<open>mod\<close> on \<^typ>\<open>int\<close> compute.
  Strings are \<^typ>\<open>string\<close>. An exception is a value of type \<open>error\<close>.
\<close>

subsection \<open>Python numbers, \<^verbatim>\<open>int()\<close>, \<^verbatim>\<open>str()\<close> and the \<^verbatim>\<open>d\<close> format\<close>

datatype error = ValueError | OverflowError

text \<open>
  A number handed to \<^verbatim>\<open>int()\<close>: an integer, or a float. A float is NaN, an infinity
  (\<open>PyInf True\<close> is \<open>+inf\<close>) or a finite value, which is a rational number.
\<close>

datatype number = PyInt int | PyFloat rat | PyNaN | PyInf bool

text \<open>
  \<^verbatim>\<open>int(x)\<close>: the identity on integers, truncation towards zero on finite floats,
  \<^verbatim>\<open>ValueError\<close> on NaN and \<^verbatim>\<open>OverflowError\<close> on an infinity.
\<close>

definition truncate_rat :: "rat \<Rightarrow> int" where
  "truncate_rat q = (if 0 \<le> q then \<lfloor>q\<rfloor> else - \<lfloor>- q\<rfloor>)"

fun py_int :: "number \<Rightarrow> error + int" where
  "py_int (PyInt n) = Inr n"
| "py_int (PyFloat q) = Inr (truncate_rat q)"
| "py_int PyNaN = Inl ValueError"
| "py_int (PyInf _) = Inl OverflowError"

text \<open>
  The decimal digits: \<open>digit_char\<close> is only applied to numbers below 10, and
  \<open>digit_val\<close> only to characters that \<open>is_digit\<close> accepts.
\<close>

definition digit_char :: "nat \<Rightarrow> char" where
  "digit_char d = ''0123456789'' ! d"

definition is_digit :: "char \<Rightarrow> bool" where
  "is_digit c = (c \<in> set ''0123456789'')"

definition digit_val :: "char \<Rightarrow> nat" where
  "digit_val c = (of_char c :: nat) - 48"

text \<open>\<^verbatim>\<open>str(n)\<close> for \<open>n \<ge> 0\<close>: the decimal numeral, without leading zeros.\<close>

fun str_nat :: "nat \<Rightarrow> string" where
  "str_nat n = (if n < 10 then [digit_char n] else str_nat (n div 10) @ [digit_char (n mod 10)])"

declare str_nat.simps [simp del]

text \<open>\<^verbatim>\<open>str(i)\<close> and \<^verbatim>\<open>f"{i}"\<close> for an integer.\<close>

definition str_int :: "int \<Rightarrow> string" where
  "str_int i = (if i < 0 then CHR ''-'' # str_nat (nat (- i)) else str_nat (nat i))"

definition zfill :: "nat \<Rightarrow> string \<Rightarrow> string" where
  "zfill w s = replicate (w - length s) (CHR ''0'') @ s"

text \<open>
  \<^verbatim>\<open>f"{i:0wd}"\<close>: the zeros go between the sign and the digits, and the sign counts
  in the width: \<^verbatim>\<open>f"{-5:08d}"\<close> is \<^verbatim>\<open>-0000005\<close>.
\<close>

definition fmt_0d :: "nat \<Rightarrow> int \<Rightarrow> string" where
  "fmt_0d w i = (if i < 0 then CHR ''-'' # zfill (w - 1) (str_nat (nat (- i)))
                 else zfill w (str_nat (nat i)))"

definition digits_val :: "string \<Rightarrow> nat" where
  "digits_val s = foldl (\<lambda>a c. 10 * a + digit_val c) 0 s"

text \<open>
  \<^verbatim>\<open>int(s)\<close> on a string: an optional sign and a non-empty run of decimal digits
  (leading zeros allowed); anything else raises \<^verbatim>\<open>ValueError\<close>. Python also accepts
  surrounding white space and underscores between digits; no string built by the \<^verbatim>\<open>d\<close>
  format contains either, so these forms are left out.
\<close>

definition py_int_str :: "string \<Rightarrow> error + int" where
  "py_int_str s =
     (case s of
        [] \<Rightarrow> Inl ValueError
      | c # cs \<Rightarrow>
          if c = CHR ''-'' then
            (if cs \<noteq> [] \<and> list_all is_digit cs then Inr (- int (digits_val cs)) else Inl ValueError)
          else if c = CHR ''+'' then
            (if cs \<noteq> [] \<and> list_all is_digit cs then Inr (int (digits_val cs)) else Inl ValueError)
          else if list_all is_digit s then Inr (int (digits_val s))
          else Inl ValueError)"

subsection \<open>The formatters\<close>

text \<open>\<^verbatim>\<open>format_rank\<close> (lines 74-83).\<close>

definition format_rank :: "number \<Rightarrow> error + string" where
  "format_rank rank =
     (case py_int rank of
        Inl e \<Rightarrow> Inl e
      | Inr rank' \<Rightarrow>
          if rank' = 1 then Inr (str_int rank' @ ''st'')
          else if rank' = 2 then Inr (str_int rank' @ ''nd'')
          else if rank' = 3 then Inr (str_int rank' @ ''rd'')
          else Inr (str_int rank' @ ''th''))"

text \<open>
  \<^verbatim>\<open>format_time\<close> (lines 86-90). The argument is an integer (the \<^verbatim>\<open>best\<close> column is
  \<^verbatim>\<open>int32\<close>), on which \<^verbatim>\<open>int()\<close> is the identity, so no step can raise.
\<close>

definition format_time :: "int \<Rightarrow> string" where
  "format_time centiseconds =
     (let minutes = centiseconds div 6000;
          centiseconds' = centiseconds mod 6000;
          seconds = centiseconds' div 100;
          fractional = centiseconds' mod 100
      in if minutes > 0
         then str_int minutes @ '':'' @ fmt_0d 2 seconds @ ''.'' @ fmt_0d 2 fractional
         else str_int seconds @ ''.'' @ fmt_0d 2 fractional)"

text \<open>
  \<^verbatim>\<open>format_mbf_result\<close> (lines 93-103). The slices \<^verbatim>\<open>s[:2]\<close>, \<^verbatim>\<open>s[2:-2]\<close> and \<^verbatim>\<open>s[-2:]\<close>
  are \<open>take 2 s\<close>, \<open>drop 2 (take (length s - 2) s)\<close> and \<open>drop (length s - 2) s\<close>; each
  \<^verbatim>\<open>int()\<close> of a slice may raise.
\<close>

definition format_mbf_result :: "int \<Rightarrow> error + string" where
  "format_mbf_result best =
     (let best_str = fmt_0d 8 best in
      case py_int_str (take 2 best_str) of
        Inl e \<Rightarrow> Inl e
      | Inr total_points \<Rightarrow>
     (case py_int_str (drop 2 (take (length best_str - 2) best_str)) of
        Inl e \<Rightarrow> Inl e
      | Inr total_time_seconds \<Rightarrow>
     (case py_int_str (drop (length best_str - 2) best_str) of
        Inl e \<Rightarrow> Inl e
      | Inr missed_cubes \<Rightarrow>
          let solved_cubes = 99 - total_points + missed_cubes;
              attempted_cubes = solved_cubes + missed_cubes;
              minutes = total_time_seconds div 60;
              seconds = total_time_seconds mod 60;
              formatted_time = str_int minutes @ '':'' @ fmt_0d 2 seconds
          in Inr (str_int solved_cubes @ ''/'' @ str_int attempted_cubes @ '' '' @ formatted_time))))"

text \<open>\<^verbatim>\<open>format_best_result\<close> (lines 106-112); both arms of the fewest-moves branch are \<^verbatim>\<open>str(best)\<close>.\<close>

definition format_best_result :: "string \<Rightarrow> int \<Rightarrow> error + string" where
  "format_best_result event_id best =
     (if event_id = ''333mbf'' then format_mbf_result best
      else if event_id = ''333fm'' then (if best < 100 then Inr (str_int best) else Inr (str_int best))
      else Inr (format_time best))"



subsection \<open>The inverse parse of a formatted time\<close>

text \<open>
  Modelled from the spec: the inverse parse that the round-trip property of \<^verbatim>\<open>format_time\<close>
  is stated against. The program has no parser; \<open>inverse_parse_time\<close> reads the output
  grammar \<^verbatim>\<open>[minutes:]seconds.fractional\<close> of \<^verbatim>\<open>format_time\<close>: the text before the first
  colon, when there is a colon, is the minutes (otherwise the minutes are 0); the rest is
  cut at the first full stop into seconds and fractional part; each part is read with
  \<^verbatim>\<open>int()\<close>. A string that does not have this shape has no parse.
\<close>

definition split_once :: "char \<Rightarrow> string \<Rightarrow> string \<times> string" where
  "split_once sep s = (takeWhile (\<lambda>c. c \<noteq> sep) s, drop 1 (dropWhile (\<lambda>c. c \<noteq> sep) s))"

definition inverse_parse_time :: "string \<Rightarrow> (int \<times> int \<times> int) option" where
  "inverse_parse_time s =
     (let (minutes_str, rest) =
            (if CHR '':'' \<in> set s then split_once (CHR '':'') s else (''0'', s));
          (seconds_str, fractional_str) = split_once (CHR ''.'') rest
      in case (py_int_str minutes_str, py_int_str seconds_str, py_int_str fractional_str) of
           (Inr minutes, Inr seconds, Inr fractional) \<Rightarrow> Some (minutes, seconds, fractional)
         | _ \<Rightarrow> None)"

subsection \<open>The tables and the join\<close>

text \<open>
  The columns read by \<^verbatim>\<open>load_data\<close> (lines 11-23). The two tables share the key columns
  \<^verbatim>\<open>personId\<close>, \<^verbatim>\<open>eventId\<close> and \<^verbatim>\<open>best\<close>; the joined table has the columns of the
  results table and \<^verbatim>\<open>countryRank\<close>. The column \<^verbatim>\<open>best\<close> is \<^verbatim>\<open>int32\<close>; the join and the
  query only compare it, and the formatters convert it with \<^verbatim>\<open>int()\<close> first, so it is an
  \<^typ>\<open>int\<close> here.

  \<^verbatim>\<open>countryRank\<close> is a \<^verbatim>\<open>float32\<close> column. The program only compares its values and takes
  their maximum, so a value is modelled as \<open>None\<close> for NaN or \<open>Some v\<close> with \<open>v\<close> in a
  linearly ordered type \<open>'r\<close> (the non-NaN floats, ordered as numbers).
\<close>

record key_cols =
  personId :: string
  eventId :: string
  best :: int

record result_row = key_cols +
  personCountryId :: string
  personName :: string

record 'r rank_row = key_cols +
  countryRank :: "'r option"

record 'r unified_row = result_row +
  countryRank :: "'r option"

definition row_key :: "'a key_cols_scheme \<Rightarrow> string \<times> string \<times> int" where
  "row_key row = (personId row, eventId row, best row)"

definition join_rows :: "result_row \<Rightarrow> 'r rank_row \<Rightarrow> 'r unified_row" where
  "join_rows res rk =
     \<lparr>personId = personId res, eventId = eventId res, best = best res,
      personCountryId = personCountryId res, personName = personName res,
      countryRank = rank_row.countryRank rk\<rparr>"

text \<open>
  \<^verbatim>\<open>merge_data\<close> (lines 58-65): \<^verbatim>\<open>pd.merge(..., on=[personId, eventId, best], how="inner")\<close>.
  An inner join returns one row for every pair of a left row and a right row with equal
  keys, in the order of the left rows. The properties proved below are about the number
  of rows and about their content, not about their order. The key columns are taken to
  be populated (a missing value is not modelled).
\<close>

definition merge_data :: "result_row list \<Rightarrow> 'r rank_row list \<Rightarrow> 'r unified_row list" where
  "merge_data results_df ranks_df =
     [join_rows res rk. res \<leftarrow> results_df, rk \<leftarrow> ranks_df,
        personId res = personId rk \<and> eventId res = eventId rk \<and> best res = best rk]"

subsection \<open>The rank query\<close>

text \<open>The rank asked for: the token \<^verbatim>\<open>"lowest"\<close> or a number.\<close>

datatype 'r rank_spec = Lowest | Rank 'r

text \<open>Float equality: NaN equals nothing, not even itself.\<close>

definition float_eq :: "'r option \<Rightarrow> 'r option \<Rightarrow> bool" where
  "float_eq a b = (case (a, b) of (Some x, Some y) \<Rightarrow> x = y | _ \<Rightarrow> False)"

text \<open>
  \<^verbatim>\<open>Series.max()\<close> on a float column: NaN entries are skipped; the result is NaN when
  nothing is left, in particular on an empty column. It does not raise.
\<close>

definition dropna :: "'r option list \<Rightarrow> 'r list" where
  "dropna col = [v. Some v \<leftarrow> col]"

definition series_max :: "'r::linorder option list \<Rightarrow> 'r option" where
  "series_max col = (case dropna col of [] \<Rightarrow> None | v # vs \<Rightarrow> Some (fold max vs v))"

text \<open>Line 144: the rows of the given event and region.\<close>

definition query_rows :: "'r unified_row list \<Rightarrow> string \<Rightarrow> string \<Rightarrow> 'r unified_row list" where
  "query_rows merged_df event_id region =
     filter (\<lambda>row. eventId row = event_id \<and> personCountryId row = region) merged_df"

text \<open>Lines 145-146: \<^verbatim>\<open>"lowest"\<close> is replaced by the maximum of the filtered column.\<close>

definition resolve_rank :: "'r::linorder unified_row list \<Rightarrow> 'r rank_spec \<Rightarrow> 'r option" where
  "resolve_rank filtered_df rank_number =
     (case rank_number of
        Lowest \<Rightarrow> series_max (map countryRank filtered_df)
      | Rank v \<Rightarrow> Some v)"

text \<open>
  \<^verbatim>\<open>get_person_by_rank\<close> (lines 143-149). The joined table is a global of the program and a
  parameter here. \<^verbatim>\<open>.head(1)\<close> keeps the first matching row; the result is that row, or
  \<open>None\<close> when no row matches. No step of the function raises.
\<close>

definition get_person_by_rank ::
  "'r::linorder unified_row list \<Rightarrow> string \<Rightarrow> string \<Rightarrow> 'r rank_spec \<Rightarrow> 'r unified_row option" where
  "get_person_by_rank merged_df event_id region rank_number =
     (let filtered_df = query_rows merged_df event_id region;
          rank_number' = resolve_rank filtered_df rank_number;
          person_at_rank = take 1 (filter (\<lambda>row. float_eq (countryRank row) rank_number') filtered_df)
      in case person_at_rank of [] \<Rightarrow> None | row # _ \<Rightarrow> Some row)"

subsection \<open>Example tables\<close>

text \<open>
  Rows used in the concrete instances below. A results table has one row for each round a
  competitor took part in, so a competitor who reaches the same best twice has two rows
  with the same key (\<open>alice_result\<close> listed twice); the ranks table has one row for
  each competitor and event.
\<close>

abbreviation alice_result :: result_row where
  "alice_result \<equiv>
     \<lparr>personId = ''2015ALIC01'', eventId = ''333'', best = 610,
      personCountryId = ''USA'', personName = ''Alice''\<rparr>"

abbreviation bob_result :: result_row where
  "bob_result \<equiv>
     \<lparr>personId = ''2016BOBB02'', eventId = ''333'', best = 700,
      personCountryId = ''USA'', personName = ''Bob''\<rparr>"

abbreviation alice_rank :: "rat rank_row" where
  "alice_rank \<equiv>
     \<lparr>personId = ''2015ALIC01'', eventId = ''333'', best = 610,
      rank_row.countryRank = Some 1\<rparr>"

abbreviation carol_rank :: "rat rank_row" where
  "carol_rank \<equiv>
     \<lparr>personId = ''2017CARO03'', eventId = ''333'', best = 800,
      rank_row.countryRank = Some 2\<rparr>"

abbreviation unified_example :: "rat unified_row list" where
  "unified_example \<equiv>
     [\<lparr>personId = ''2015ALIC01'', eventId = ''333'', best = 610,
       personCountryId = ''USA'', personName = ''Alice'', countryRank = Some 1\<rparr>,
      \<lparr>personId = ''2016BOBB02'', eventId = ''333'', best = 700,
       personCountryId = ''USA'', personName = ''Bob'', countryRank = Some 2\<rparr>,
      \<lparr>personId = ''2018DANA04'', eventId = ''333'', best = 650,
       personCountryId = ''Canada'', personName = ''Dana'', countryRank = Some 7\<rparr>,
      \<lparr>personId = ''2017CARO03'', eventId = ''333'', best = 700,
       personCountryId = ''USA'', personName = ''Carol'', countryRank = Some 2\<rparr>,
      \<lparr>personId = ''2019EVAN05'', eventId = ''333'', best = 900,
       personCountryId = ''USA'', personName = ''Evan'', countryRank = None\<rparr>]"

section \<open>Decimal numerals\<close>

lemma lt10_cases: "d < 10 \<Longrightarrow> d \<in> {0, 1, 2, 3, 4, 5, 6, 7, 8, 9 :: nat}"
  by auto

lemma is_digit_digit_char: "d < 10 \<Longrightarrow> is_digit (digit_char d)"
  using lt10_cases [of d] by (auto simp: is_digit_def digit_char_def)

lemma digit_val_digit_char: "d < 10 \<Longrightarrow> digit_val (digit_char d) = d"
  using lt10_cases [of d] by (auto simp: digit_val_def digit_char_def)

lemma digit_val_less: "is_digit c \<Longrightarrow> digit_val c < 10"
  by (auto simp: is_digit_def digit_val_def)

lemma is_digit_not_sep:
  "is_digit c \<Longrightarrow> c \<noteq> CHR '':'' \<and> c \<noteq> CHR ''.'' \<and> c \<noteq> CHR ''-'' \<and> c \<noteq> CHR ''+''"
  by (auto simp: is_digit_def)

lemma is_digit_zero: "is_digit (CHR ''0'')"
  by (simp add: is_digit_def)

lemma str_nat_not_Nil: "str_nat n \<noteq> []"
  by (subst str_nat.simps) simp

lemma str_nat_digits: "list_all is_digit (str_nat n)"
proof (induction n rule: str_nat.induct)
  case (1 n)
  show ?case
  proof (cases "n < 10")
    case True
    then show ?thesis by (subst str_nat.simps) (simp add: is_digit_digit_char)
  next
    case False
    with 1 show ?thesis by (subst str_nat.simps) (simp add: is_digit_digit_char)
  qed
qed

lemma digits_val_Nil: "digits_val [] = 0"
  by (simp add: digits_val_def)

lemma digits_val_snoc: "digits_val (s @ [c]) = 10 * digits_val s + digit_val c"
  by (simp add: digits_val_def)

lemma digits_val_single: "digits_val [c] = digit_val c"
  by (simp add: digits_val_def)

lemma digits_val_append: "digits_val (a @ b) = digits_val a * 10 ^ length b + digits_val b"
proof (induction b rule: rev_induct)
  case Nil
  show ?case by (simp add: digits_val_Nil)
next
  case (snoc c b)
  have "digits_val (a @ b @ [c]) = 10 * digits_val (a @ b) + digit_val c"
    using digits_val_snoc [of "a @ b" c] by simp
  also have "\<dots> = digits_val a * 10 ^ length (b @ [c]) + (10 * digits_val b + digit_val c)"
    by (simp add: snoc.IH algebra_simps)
  finally show ?case by (simp add: digits_val_snoc)
qed

lemma digits_val_bound: "list_all is_digit s \<Longrightarrow> digits_val s < 10 ^ length s"
proof (induction s rule: rev_induct)
  case Nil
  show ?case by (simp add: digits_val_Nil)
next
  case (snoc c s)
  then have "digits_val s < 10 ^ length s" and "digit_val c < 10"
    by (simp_all add: digit_val_less)
  then have "10 * digits_val s + digit_val c < 10 * 10 ^ length s"
    by linarith
  then show ?case by (simp add: digits_val_snoc)
qed

lemma str_nat_val: "digits_val (str_nat n) = n"
proof (induction n rule: str_nat.induct)
  case (1 n)
  show ?case
  proof (cases "n < 10")
    case True
    then show ?thesis
      by (subst str_nat.simps) (simp add: digits_val_single digit_val_digit_char)
  next
    case False
    with 1 have "digits_val (str_nat (n div 10)) = n div 10" by simp
    with False show ?thesis
      by (subst str_nat.simps) (simp add: digits_val_snoc digit_val_digit_char)
  qed
qed

lemma digits_val_zeros: "digits_val (replicate k (CHR ''0'')) = 0"
  by (induction k) (simp_all add: digits_val_def digit_val_def)

lemma zeros_digits: "list_all is_digit (replicate k (CHR ''0''))"
  by (induction k) (simp_all add: is_digit_zero)

lemma zfill_digits: "list_all is_digit s \<Longrightarrow> list_all is_digit (zfill w s)"
  by (simp add: zfill_def zeros_digits)

lemma zfill_val: "digits_val (zfill w s) = digits_val s"
  by (simp add: zfill_def digits_val_append digits_val_zeros)

lemma length_zfill: "length (zfill w s) = max w (length s)"
  by (simp add: zfill_def)

lemma list_all_take: "list_all P s \<Longrightarrow> list_all P (take k s)"
  by (auto simp: list_all_iff dest: in_set_takeD)

lemma list_all_drop: "list_all P s \<Longrightarrow> list_all P (drop k s)"
  by (auto simp: list_all_iff dest: in_set_dropD)

lemma digits_val_split:
  assumes "list_all is_digit s"
  shows "digits_val s = digits_val (take k s) * 10 ^ (length s - k) + digits_val (drop k s)"
    and "digits_val (drop k s) < 10 ^ (length s - k)"
proof -
  have "digits_val s = digits_val (take k s @ drop k s)" by simp
  also have "\<dots> = digits_val (take k s) * 10 ^ (length s - k) + digits_val (drop k s)"
    by (simp only: digits_val_append length_drop)
  finally show "digits_val s = digits_val (take k s) * 10 ^ (length s - k) + digits_val (drop k s)" .
  show "digits_val (drop k s) < 10 ^ (length s - k)"
    using digits_val_bound [OF list_all_drop [OF assms, of k]] by simp
qed

lemma digits_val_take:
  assumes "list_all is_digit s"
  shows "digits_val (take k s) = digits_val s div 10 ^ (length s - k)"
  using digits_val_split [OF assms, of k] by simp

lemma digits_val_drop:
  assumes "list_all is_digit s"
  shows "digits_val (drop k s) = digits_val s mod 10 ^ (length s - k)"
  using digits_val_split [OF assms, of k] by simp

lemma py_int_str_digits:
  assumes "s \<noteq> []" and "list_all is_digit s"
  shows "py_int_str s = Inr (int (digits_val s))"
proof -
  from assms obtain c cs where s: "s = c # cs" by (cases s) auto
  with assms have "is_digit c" by simp
  then have "c \<noteq> CHR ''-''" and "c \<noteq> CHR ''+''" using is_digit_not_sep by auto
  with assms s show ?thesis by (simp add: py_int_str_def)
qed

lemma py_int_str_minus:
  assumes "cs \<noteq> []" and "list_all is_digit cs"
  shows "py_int_str (CHR ''-'' # cs) = Inr (- int (digits_val cs))"
  using assms by (simp add: py_int_str_def)

lemma fmt_0d_nonneg:
  assumes "0 \<le> i"
  shows "list_all is_digit (fmt_0d w i)"
    and "length (fmt_0d w i) = max w (length (str_nat (nat i)))"
    and "digits_val (fmt_0d w i) = nat i"
  using assms
  by (simp_all add: fmt_0d_def zfill_digits str_nat_digits length_zfill zfill_val str_nat_val)

lemma str_nat_Suc0: "str_nat (Suc 0) = ''1''"
  by (simp add: str_nat.simps digit_char_def)

section \<open>Truncation\<close>

lemma truncate_rat_of_int: "truncate_rat (of_int n) = n"
  by (simp add: truncate_rat_def)

lemma truncate_rat_towards_zero:
  "\<bar>of_int (truncate_rat q)\<bar> \<le> \<bar>q\<bar> \<and> \<bar>q\<bar> < \<bar>of_int (truncate_rat q)\<bar> + 1"
proof (cases "0 \<le> q")
  case True
  then have "0 \<le> \<lfloor>q\<rfloor>" by simp
  then have "\<bar>rat_of_int \<lfloor>q\<rfloor>\<bar> = of_int \<lfloor>q\<rfloor>" by simp
  with True floor_correct [of q] show ?thesis by (simp add: truncate_rat_def)
next
  case False
  then have "0 \<le> \<lfloor>- q\<rfloor>" by simp
  then have "\<bar>rat_of_int \<lfloor>- q\<rfloor>\<bar> = of_int \<lfloor>- q\<rfloor>" by simp
  with False floor_correct [of "- q"] show ?thesis by (simp add: truncate_rat_def)
qed

lemma truncate_rat_1: "truncate_rat 1 = 1"
  by (simp add: truncate_rat_def)

lemma truncate_rat_numeral: "truncate_rat (numeral k) = numeral k"
  by (simp add: truncate_rat_def)

lemma floor_7_2: "\<lfloor>7 / 2 :: rat\<rfloor> = 3"
  by (simp add: floor_eq_iff)

lemma truncate_rat_7_2: "truncate_rat (7 / 2) = 3"
  by (simp add: truncate_rat_def floor_7_2)

section \<open>The multi-blind decoder\<close>

text \<open>
  The three slices of a numeral of at least eight digits, read back as numbers: the
  first two digits, the digits between them and the last two, and the last two digits.
\<close>

lemma mbf_slices:
  assumes d: "list_all is_digit s" and len: "8 \<le> length s"
  shows "py_int_str (take 2 s) = Inr (int (digits_val s div 10 ^ (length s - 2)))"
    and "py_int_str (drop 2 (take (length s - 2) s)) =
           Inr (int (digits_val s div 100 mod 10 ^ (length s - 4)))"
    and "py_int_str (drop (length s - 2) s) = Inr (int (digits_val s mod 100))"
proof -
  have "take 2 s \<noteq> []" using len by auto
  then show "py_int_str (take 2 s) = Inr (int (digits_val s div 10 ^ (length s - 2)))"
    using py_int_str_digits [OF _ list_all_take [OF d, of 2]] digits_val_take [OF d, of 2] by simp
next
  let ?t = "take (length s - 2) s"
  have dt: "list_all is_digit ?t" by (rule list_all_take [OF d])
  have "length s - (length s - 2) = 2" using len by simp
  then have vt: "digits_val ?t = digits_val s div 100"
    using digits_val_take [OF d, of "length s - 2"] by simp
  have "digits_val (drop 2 ?t) = digits_val ?t mod 10 ^ (length ?t - 2)"
    by (rule digits_val_drop [OF dt])
  also have "\<dots> = digits_val s div 100 mod 10 ^ (length s - 4)"
    by (simp add: vt)
  finally have v: "digits_val (drop 2 ?t) = digits_val s div 100 mod 10 ^ (length s - 4)" .
  have "drop 2 ?t \<noteq> []" using len by simp
  then show "py_int_str (drop 2 ?t) = Inr (int (digits_val s div 100 mod 10 ^ (length s - 4)))"
    using py_int_str_digits [OF _ list_all_drop [OF dt, of 2]] v by simp
next
  let ?u = "drop (length s - 2) s"
  have "length s - (length s - 2) = 2" using len by simp
  then have v: "digits_val ?u = digits_val s mod 100"
    using digits_val_drop [OF d, of "length s - 2"] by simp
  have "?u \<noteq> []" using len by simp
  then show "py_int_str ?u = Inr (int (digits_val s mod 100))"
    using py_int_str_digits [OF _ list_all_drop [OF d, of "length s - 2"]] v by simp
qed

lemma mbf_fields:
  fixes best :: int
  assumes "0 \<le> best"
  shows "py_int_str (take 2 (fmt_0d 8 best)) = Inr (best div 10 ^ (length (fmt_0d 8 best) - 2))"
    and "py_int_str (drop 2 (take (length (fmt_0d 8 best) - 2) (fmt_0d 8 best))) =
           Inr (best div 100 mod 10 ^ (length (fmt_0d 8 best) - 4))"
    and "py_int_str (drop (length (fmt_0d 8 best) - 2) (fmt_0d 8 best)) = Inr (best mod 100)"
proof -
  let ?s = "fmt_0d 8 best"
  have d: "list_all is_digit ?s" and v: "digits_val ?s = nat best"
    using fmt_0d_nonneg [OF assms, of 8] by simp_all
  have len: "8 \<le> length ?s"
    using fmt_0d_nonneg(2) [OF assms, of 8] by simp
  show "py_int_str (take 2 ?s) = Inr (best div 10 ^ (length ?s - 2))"
    using mbf_slices(1) [OF d len] assms by (simp add: v zdiv_int)
  show "py_int_str (drop 2 (take (length ?s - 2) ?s)) = Inr (best div 100 mod 10 ^ (length ?s - 4))"
    using mbf_slices(2) [OF d len] assms by (simp add: v zdiv_int zmod_int)
  show "py_int_str (drop (length ?s - 2) ?s) = Inr (best mod 100)"
    using mbf_slices(3) [OF d len] assms by (simp add: v zmod_int)
qed

lemma format_mbf_result_nonneg:
  fixes best :: int
  assumes "0 \<le> best"
  shows "format_mbf_result best =
     (let L = length (fmt_0d 8 best);
          points_digits = best div 10 ^ (L - 2);
          time_digits = best div 100 mod 10 ^ (L - 4);
          missed_digits = best mod 100;
          solved = 99 - points_digits + missed_digits;
          attempted = solved + missed_digits
      in Inr (str_int solved @ ''/'' @ str_int attempted @ '' '' @
              str_int (time_digits div 60) @ '':'' @ fmt_0d 2 (time_digits mod 60)))"
  unfolding format_mbf_result_def Let_def mbf_fields [OF assms] by simp

text \<open>On a negative number the numeral starts with the sign; every slice still parses.\<close>

lemma format_mbf_result_neg:
  fixes best :: int
  assumes "best < 0"
  shows "\<exists>s. format_mbf_result best = Inr s"
proof -
  define t where "t = zfill 7 (str_nat (nat (- best)))"
  have s: "fmt_0d 8 best = CHR ''-'' # t"
    using assms by (simp add: fmt_0d_def t_def)
  have d: "list_all is_digit t"
    by (simp add: t_def zfill_digits str_nat_digits)
  have len: "7 \<le> length t"
    by (simp add: t_def length_zfill)
  define k where "k = length t - 2"
  have k: "length t = k + 2" using len by (simp add: k_def)
  have "take 2 (CHR ''-'' # t) = CHR ''-'' # take 1 t"
    by (simp add: numeral_2_eq_2)
  moreover have "take 1 t \<noteq> []" using len by auto
  ultimately obtain p where p: "py_int_str (take 2 (CHR ''-'' # t)) = Inr p"
    using py_int_str_minus [OF _ list_all_take [OF d, of 1]] by simp
  have "drop 2 (take (length (CHR ''-'' # t) - 2) (CHR ''-'' # t)) = drop 1 (take (length t - 2) t)"
    by (simp add: k numeral_2_eq_2)
  moreover have "drop 1 (take (length t - 2) t) \<noteq> []" using len by simp
  ultimately obtain m where
    m: "py_int_str (drop 2 (take (length (CHR ''-'' # t) - 2) (CHR ''-'' # t))) = Inr m"
    using py_int_str_digits [OF _ list_all_drop [OF list_all_take [OF d, of "length t - 2"], of 1]]
    by simp
  have "drop (length (CHR ''-'' # t) - 2) (CHR ''-'' # t) = drop (length t - 2) t"
    by (simp add: k)
  moreover have "drop (length t - 2) t \<noteq> []" using len by simp
  ultimately obtain c where
    c: "py_int_str (drop (length (CHR ''-'' # t) - 2) (CHR ''-'' # t)) = Inr c"
    using py_int_str_digits [OF _ list_all_drop [OF d, of "length t - 2"]] by simp
  show ?thesis
    unfolding format_mbf_result_def Let_def s p m c by simp
qed

lemma format_mbf_result_total:
  fixes best :: int
  shows "\<exists>s. format_mbf_result best = Inr s"
proof (cases "0 \<le> best")
  case True
  then show ?thesis by (simp add: format_mbf_result_nonneg Let_def)
next
  case False
  then show ?thesis by (simp add: format_mbf_result_neg)
qed

lemma fmt_0d_8_neg1: "fmt_0d 8 (- 1) = ''-0000001''"
  by (simp add: fmt_0d_def str_nat_Suc0 zfill_def eval_nat_numeral)

lemma format_mbf_result_neg1: "format_mbf_result (- 1) = Inr ''100/101 0:00''"
  unfolding format_mbf_result_def fmt_0d_8_neg1
  by (simp add: py_int_str_def is_digit_def digits_val_def digit_val_def
      str_int_def fmt_0d_def zfill_def str_nat.simps digit_char_def Let_def)

lemma format_mbf_result_example: "format_mbf_result 3083703 = Inr ''99/102 13:57''"
  by (simp add: format_mbf_result_def py_int_str_def is_digit_def digits_val_def digit_val_def
      str_int_def fmt_0d_def zfill_def str_nat.simps digit_char_def Let_def)

lemma format_time_neg1: "format_time (- 1) = ''59.99''"
  by (simp add: format_time_def str_int_def fmt_0d_def zfill_def str_nat.simps digit_char_def)

section \<open>The claims about the formatters\<close>

text \<open>
  C3. For a non-negative \<open>best\<close>, \<^verbatim>\<open>format_mbf_result\<close> renders \<open>best\<close> as a decimal numeral
  of at least eight digits (zero-filled on the left). The first two digits read as
  \<open>points_digits\<close>, the digits from the third to the third from last as \<open>time_digits\<close>
  (seconds), the last two as \<open>missed_digits\<close>; in arithmetic, with \<open>L\<close> the length of the
  numeral, these are \<open>best div 10 ^ (L - 2)\<close>, \<open>best div 100 mod 10 ^ (L - 4)\<close> and
  \<open>best mod 100\<close>. The result is \<^verbatim>\<open>solved/attempted minutes:seconds\<close> with
  \<open>solved = 99 - points_digits + missed_digits\<close>, \<open>attempted = solved + missed_digits\<close>,
  minutes and seconds the quotient and remainder of \<open>time_digits\<close> by 60, and the seconds
  zero-filled to two digits. In particular 3083703 gives \<^verbatim>\<open>99/102 13:57\<close>.
\<close>

theorem format_mbf_result_decodes:
  fixes best :: int
  assumes "0 \<le> best"
  shows "(let best_str = fmt_0d 8 best;
              L = length best_str;
              points_digits = best div 10 ^ (L - 2);
              time_digits = best div 100 mod 10 ^ (L - 4);
              missed_digits = best mod 100;
              solved = 99 - points_digits + missed_digits;
              attempted = solved + missed_digits
          in 8 \<le> L \<and> list_all is_digit best_str \<and> int (digits_val best_str) = best \<and>
             py_int_str (take 2 best_str) = Inr points_digits \<and>
             py_int_str (drop 2 (take (L - 2) best_str)) = Inr time_digits \<and>
             py_int_str (drop (L - 2) best_str) = Inr missed_digits \<and>
             format_mbf_result best =
               Inr (str_int solved @ ''/'' @ str_int attempted @ '' '' @
                    str_int (time_digits div 60) @ '':'' @ fmt_0d 2 (time_digits mod 60))) \<and>
         format_mbf_result 3083703 = Inr ''99/102 13:57''"
proof -
  have "8 \<le> length (fmt_0d 8 best)"
    using fmt_0d_nonneg(2) [OF assms, of 8] by simp
  moreover have "list_all is_digit (fmt_0d 8 best)"
    by (rule fmt_0d_nonneg(1) [OF assms])
  moreover have "int (digits_val (fmt_0d 8 best)) = best"
    using fmt_0d_nonneg(3) [OF assms, of 8] assms by simp
  ultimately show ?thesis
    using mbf_fields [OF assms] format_mbf_result_nonneg [OF assms] format_mbf_result_example
    by (simp add: Let_def)
qed

theorem format_mbf_result_decodes_witness:
  "(0::int) \<le> 12345678 \<and> format_mbf_result 12345678 = Inr ''165/243 57:36''"
  using format_mbf_result_decodes [of 12345678]
  by (simp add: Let_def fmt_0d_def zfill_def str_int_def str_nat.simps digit_char_def)

text \<open>
  C5. \<^verbatim>\<open>format_rank\<close> truncates the rank to an integer (the identity on an integer,
  truncation towards zero on a finite float) and appends \<^verbatim>\<open>st\<close>, \<^verbatim>\<open>nd\<close> or \<^verbatim>\<open>rd\<close> exactly
  when that integer is 1, 2 or 3, and \<^verbatim>\<open>th\<close> for every other integer; so 1, 2, 3, 4, 11
  and 21 give \<^verbatim>\<open>1st\<close>, \<^verbatim>\<open>2nd\<close>, \<^verbatim>\<open>3rd\<close>, \<^verbatim>\<open>4th\<close>, \<^verbatim>\<open>11th\<close> and \<^verbatim>\<open>21th\<close>, as
  integers and as the floats of the rank column, and 3.5 gives \<^verbatim>\<open>3rd\<close>.
\<close>

theorem format_rank_suffix:
  "format_rank (PyInt n) =
     Inr (str_int n @
          (if n = 1 then ''st'' else if n = 2 then ''nd'' else if n = 3 then ''rd'' else ''th'')) \<and>
   format_rank (PyFloat q) =
     Inr (str_int (truncate_rat q) @
          (if truncate_rat q = 1 then ''st'' else if truncate_rat q = 2 then ''nd''
           else if truncate_rat q = 3 then ''rd'' else ''th'')) \<and>
   format_rank (PyInt 1) = Inr ''1st'' \<and>
   format_rank (PyInt 2) = Inr ''2nd'' \<and>
   format_rank (PyInt 3) = Inr ''3rd'' \<and>
   format_rank (PyInt 4) = Inr ''4th'' \<and>
   format_rank (PyInt 11) = Inr ''11th'' \<and>
   format_rank (PyInt 21) = Inr ''21th'' \<and>
   format_rank (PyFloat 1) = Inr ''1st'' \<and>
   format_rank (PyFloat 21) = Inr ''21th'' \<and>
   format_rank (PyFloat (7 / 2)) = Inr ''3rd''"
  by (simp add: format_rank_def truncate_rat_7_2 truncate_rat_numeral truncate_rat_1
      str_int_def str_nat.simps digit_char_def)

text \<open>
  C6. \<^verbatim>\<open>format_time\<close> splits the centiseconds into minutes and a remainder by 6000, and
  the remainder into seconds and a fractional part by 100. With minutes it prints
  \<^verbatim>\<open>minutes:seconds.fractional\<close>, seconds and fractional part zero-filled to two digits;
  without, \<^verbatim>\<open>seconds.fractional\<close> with only the fractional part zero-filled. So 6105
  gives \<^verbatim>\<open>1:01.05\<close> and 305 gives \<^verbatim>\<open>3.05\<close>.
\<close>

theorem format_time_divmod:
  "format_time centiseconds =
     (if centiseconds div 6000 > 0
      then str_int (centiseconds div 6000) @ '':'' @ fmt_0d 2 (centiseconds mod 6000 div 100) @
           ''.'' @ fmt_0d 2 (centiseconds mod 6000 mod 100)
      else str_int (centiseconds mod 6000 div 100) @ ''.'' @
           fmt_0d 2 (centiseconds mod 6000 mod 100)) \<and>
   format_time 6105 = ''1:01.05'' \<and>
   format_time 305 = ''3.05''"
  by (simp add: format_time_def Let_def str_int_def fmt_0d_def zfill_def str_nat.simps digit_char_def)

text \<open>
  C7, as stated: a \<open>best\<close> that is not a non-negative integer makes \<^verbatim>\<open>format_best_result\<close>
  fail with a decode error. It does not: on \<open>-1\<close> a timed event gives \<^verbatim>\<open>59.99\<close> and the
  multi-blind event gives \<^verbatim>\<open>100/101 0:00\<close>.
\<close>

theorem format_best_result_negative_counterexample:
  "format_best_result ''333'' (- 1) = Inr ''59.99'' \<and>
   format_best_result ''333mbf'' (- 1) = Inr ''100/101 0:00''"
  by (simp add: format_best_result_def format_time_neg1 format_mbf_result_neg1)

text \<open>
  C7, amended: \<^verbatim>\<open>format_best_result\<close> does not validate \<open>best\<close>. For every event and every
  integer \<open>best\<close>, negative ones included, it returns a display string and raises nothing.
\<close>

theorem format_best_result_never_fails:
  fixes best :: int
  shows "\<exists>s. format_best_result event_id best = Inr s"
  using format_mbf_result_total [of best] by (simp add: format_best_result_def)


section \<open>The round trip of a formatted time\<close>

lemma split_once_append:
  assumes "sep \<notin> set a"
  shows "split_once sep (a @ sep # b) = (a, b)"
proof -
  have "takeWhile (\<lambda>c. c \<noteq> sep) (a @ sep # b) = a"
    using assms by (induction a) auto
  moreover have "dropWhile (\<lambda>c. c \<noteq> sep) (a @ sep # b) = sep # b"
    using assms by (induction a) auto
  ultimately show ?thesis by (simp add: split_once_def)
qed

lemma digits_no_sep:
  assumes "list_all is_digit a"
  shows "CHR '':'' \<notin> set a" and "CHR ''.'' \<notin> set a"
  using assms is_digit_not_sep by (auto simp: list_all_iff)

lemma str_int_nonneg: "0 \<le> i \<Longrightarrow> str_int i = str_nat (nat i)"
  by (simp add: str_int_def)

lemma py_int_str_str_nat: "py_int_str (str_nat n) = Inr (int n)"
  using py_int_str_digits [OF str_nat_not_Nil str_nat_digits, of n] by (simp add: str_nat_val)

lemma py_int_str_fmt_0d:
  assumes "0 \<le> i" and "0 < w"
  shows "py_int_str (fmt_0d w i) = Inr i"
proof -
  have "length (fmt_0d w i) \<noteq> 0"
    using fmt_0d_nonneg(2) [OF assms(1), of w] assms(2) by simp
  then have "fmt_0d w i \<noteq> []" by simp
  then show ?thesis
    using py_int_str_digits [OF _ fmt_0d_nonneg(1) [OF assms(1), of w]]
      fmt_0d_nonneg(3) [OF assms(1), of w] assms(1) by simp
qed

lemma py_int_str_zero: "py_int_str ''0'' = Inr 0"
  by (simp add: py_int_str_def is_digit_def digits_val_def digit_val_def)

lemma inverse_parse_format_time:
  fixes best :: int
  assumes "0 \<le> best"
  shows "inverse_parse_time (format_time best) = Some (best div 6000, best mod 6000 div 100, best mod 100)"
proof -
  define m where "m = best div 6000"
  define sec where "sec = best mod 6000 div 100"
  define f where "f = best mod 6000 mod 100"
  have m0: "0 \<le> m" using assms by (simp add: m_def pos_imp_zdiv_nonneg_iff)
  have s0: "0 \<le> sec" by (simp add: sec_def pos_imp_zdiv_nonneg_iff)
  have f0: "0 \<le> f" by (simp add: f_def)
  have ff: "f = best mod 100" by (simp add: f_def mod_mod_cancel)
  let ?F = "fmt_0d 2 f"
  have pF: "py_int_str ?F = Inr f" by (rule py_int_str_fmt_0d [OF f0]) simp
  show ?thesis
  proof (cases "0 < m")
    case True
    let ?M = "str_nat (nat m)" and ?S = "fmt_0d 2 sec"
    have ft: "format_time best = ?M @ CHR '':'' # (?S @ CHR ''.'' # ?F)"
      using True m0 by (simp add: format_time_def Let_def m_def [symmetric] sec_def [symmetric]
          f_def [symmetric] str_int_nonneg)
    have c: "CHR '':'' \<in> set (format_time best)" by (simp add: ft)
    have sp1: "split_once (CHR '':'') (format_time best) = (?M, ?S @ CHR ''.'' # ?F)"
      unfolding ft by (rule split_once_append [OF digits_no_sep(1) [OF str_nat_digits]])
    have sp2: "split_once (CHR ''.'') (?S @ CHR ''.'' # ?F) = (?S, ?F)"
      by (rule split_once_append [OF digits_no_sep(2) [OF fmt_0d_nonneg(1) [OF s0]]])
    have pM: "py_int_str ?M = Inr m" using py_int_str_str_nat [of "nat m"] m0 by simp
    have pS: "py_int_str ?S = Inr sec" by (rule py_int_str_fmt_0d [OF s0]) simp
    show ?thesis
      by (simp add: inverse_parse_time_def c sp1 sp2 pM pS pF m_def [symmetric] sec_def [symmetric] ff [symmetric])
  next
    case False
    with m0 have mz: "m = 0" by simp
    let ?S = "str_nat (nat sec)"
    have ft: "format_time best = ?S @ CHR ''.'' # ?F"
      using mz s0 by (simp add: format_time_def Let_def m_def [symmetric] sec_def [symmetric]
          f_def [symmetric] str_int_nonneg)
    have c: "CHR '':'' \<notin> set (format_time best)"
      using digits_no_sep(1) [OF str_nat_digits, of "nat sec"]
        digits_no_sep(1) [OF fmt_0d_nonneg(1) [OF f0], of 2] by (simp add: ft)
    have sp2: "split_once (CHR ''.'') (format_time best) = (?S, ?F)"
      unfolding ft by (rule split_once_append [OF digits_no_sep(2) [OF str_nat_digits]])
    have pS: "py_int_str ?S = Inr sec" using py_int_str_str_nat [of "nat sec"] s0 by simp
    show ?thesis
      using mz
      by (simp add: inverse_parse_time_def c sp2 pS pF py_int_str_zero m_def [symmetric] sec_def [symmetric] ff [symmetric])
  qed
qed

lemma format_time_inj:
  fixes a b :: int
  assumes "0 \<le> a" and "0 \<le> b" and "format_time a = format_time b"
  shows "a = b"
proof -
  have "Some (a div 6000, a mod 6000 div 100, a mod 100)
        = Some (b div 6000, b mod 6000 div 100, b mod 100)"
    using inverse_parse_format_time [OF assms(1)] inverse_parse_format_time [OF assms(2)] assms(3)
    by simp
  then have d: "a div 6000 = b div 6000" and m: "a mod 6000 div 100 = b mod 6000 div 100"
    and f: "a mod 100 = b mod 100"
    by simp_all
  have "a mod 6000 = 100 * (a mod 6000 div 100) + a mod 6000 mod 100" by simp
  also have "\<dots> = 100 * (b mod 6000 div 100) + b mod 6000 mod 100"
    using m f by (simp add: mod_mod_cancel)
  also have "\<dots> = b mod 6000" by simp
  finally have "a mod 6000 = b mod 6000" .
  with d show ?thesis by (metis mult_div_mod_eq)
qed

text \<open>
  C9. For a non-negative \<open>best\<close>, parsing \<^verbatim>\<open>format_time(best)\<close> back gives the minutes, the
  seconds and the fractional part that \<^verbatim>\<open>format_time\<close> computed: the quotient of \<open>best\<close> by
  6000, the quotient of the remainder by 100, and \<open>best mod 100\<close>.
\<close>

theorem format_time_round_trip:
  fixes best :: int
  assumes "0 \<le> best"
  shows "inverse_parse_time (format_time best) =
           Some (best div 6000, best mod 6000 div 100, best mod 100)"
  by (rule inverse_parse_format_time [OF assms])

theorem format_time_round_trip_witness:
  "(0::int) \<le> 6105 \<and> inverse_parse_time (format_time 6105) = Some (1, 1, 5)"
  using format_time_round_trip [of 6105] by simp

section \<open>The join\<close>

lemma merge_data_Nil: "merge_data [] ranks_df = []"
  by (simp add: merge_data_def)

lemma merge_data_Cons:
  "merge_data (res # results_df) ranks_df =
     map (join_rows res) (filter (\<lambda>rk. row_key rk = row_key res) ranks_df) @ merge_data results_df ranks_df"
proof -
  have "concat (map (\<lambda>rk. if personId res = personId rk \<and> eventId res = eventId rk \<and> best res = best rk
                            then [join_rows res rk] else []) ranks_df)
        = map (join_rows res) (filter (\<lambda>rk. row_key rk = row_key res) ranks_df)"
    by (induction ranks_df) (auto simp: row_key_def)
  then show ?thesis by (simp add: merge_data_def)
qed

lemma row_key_join: "row_key (join_rows res rk) = row_key res"
  by (simp add: row_key_def join_rows_def)

lemma set_merge_data:
  "set (merge_data results_df ranks_df) =
     {join_rows res rk | res rk. res \<in> set results_df \<and> rk \<in> set ranks_df \<and> row_key rk = row_key res}"
  by (induction results_df) (auto simp: merge_data_Nil merge_data_Cons)

lemma length_filter_key_le_1:
  assumes "distinct (map row_key ranks_df)"
  shows "length (filter (\<lambda>rk. row_key rk = k) ranks_df) \<le> 1"
  using assms by (induction ranks_df) (auto simp: filter_empty_conv image_iff)

lemma length_merge_le_left:
  assumes "distinct (map row_key ranks_df)"
  shows "length (merge_data results_df ranks_df) \<le> length results_df"
proof (induction results_df)
  case Nil
  show ?case by (simp add: merge_data_Nil)
next
  case (Cons res results_df)
  then show ?case
    using length_filter_key_le_1 [OF assms, of "row_key res"] by (simp add: merge_data_Cons)
qed

lemma length_filter_disjoint:
  assumes "\<And>x. x \<in> set xs \<Longrightarrow> \<not> (P x \<and> Q x)"
  shows "length (filter P xs) + length (filter Q xs) = length (filter (\<lambda>x. P x \<or> Q x) xs)"
  using assms by (induction xs) auto

lemma length_merge_le_matched:
  assumes "distinct (map row_key results_df)"
  shows "length (merge_data results_df ranks_df)
           \<le> length (filter (\<lambda>rk. row_key rk \<in> row_key ` set results_df) ranks_df)"
  using assms
proof (induction results_df)
  case Nil
  show ?case by (simp add: merge_data_Nil)
next
  case (Cons res results_df)
  then have IH: "length (merge_data results_df ranks_df)
           \<le> length (filter (\<lambda>rk. row_key rk \<in> row_key ` set results_df) ranks_df)"
    and new: "row_key res \<notin> row_key ` set results_df"
    by simp_all
  have "length (filter (\<lambda>rk. row_key rk = row_key res) ranks_df)
          + length (filter (\<lambda>rk. row_key rk \<in> row_key ` set results_df) ranks_df)
        = length (filter (\<lambda>rk. row_key rk = row_key res \<or> row_key rk \<in> row_key ` set results_df) ranks_df)"
    by (rule length_filter_disjoint) (use new in auto)
  with IH show ?case by (simp add: merge_data_Cons)
qed

lemma length_merge_le_right:
  assumes "distinct (map row_key results_df)"
  shows "length (merge_data results_df ranks_df) \<le> length ranks_df"
  using length_merge_le_matched [OF assms, of ranks_df]
    length_filter_le [of "\<lambda>rk. row_key rk \<in> row_key ` set results_df" ranks_df]
  by (rule order_trans)

lemma length_merge_le_product:
  "length (merge_data results_df ranks_df) \<le> length results_df * length ranks_df"
proof (induction results_df)
  case Nil
  show ?case by (simp add: merge_data_Nil)
next
  case (Cons res results_df)
  show ?case
    using add_le_mono [OF length_filter_le [of "\<lambda>rk. row_key rk = row_key res" ranks_df] Cons.IH]
    by (simp add: merge_data_Cons)
qed

text \<open>
  C1, as stated: the join never returns more rows than the smaller table has. It does when
  a key repeats: two results rows with Alice's key and one ranks row with it give two rows,
  and the smaller table has one.
\<close>

theorem merge_data_size_counterexample:
  "\<not> length (merge_data [alice_result, alice_result] [alice_rank])
       \<le> min (length [alice_result, alice_result]) (length [alice_rank])"
  by (simp add: merge_data_def)

text \<open>
  C1, amended: the join returns at most as many rows as the results table has when no key
  occurs twice in the ranks table, and at most as many as the ranks table has when no key
  occurs twice in the results table; so at most the minimum of the two sizes when keys are
  unique in both. In general it returns at most the product of the two sizes.
\<close>

theorem merge_data_size_unique_keys:
  "(distinct (map row_key ranks_df) \<longrightarrow>
      length (merge_data results_df ranks_df) \<le> length results_df) \<and>
   (distinct (map row_key results_df) \<longrightarrow>
      length (merge_data results_df ranks_df) \<le> length ranks_df) \<and>
   (distinct (map row_key results_df) \<and> distinct (map row_key ranks_df) \<longrightarrow>
      length (merge_data results_df ranks_df) \<le> min (length results_df) (length ranks_df)) \<and>
   length (merge_data results_df ranks_df) \<le> length results_df * length ranks_df"
  using length_merge_le_left [of ranks_df results_df] length_merge_le_right [of results_df ranks_df]
    length_merge_le_product [of results_df ranks_df]
  by simp

theorem merge_data_size_unique_keys_witness:
  "distinct (map row_key [alice_result, bob_result]) \<and>
   distinct (map row_key [alice_rank]) \<and>
   length (merge_data [alice_result, bob_result] [alice_rank]) \<le> 1"
  using merge_data_size_unique_keys [of "[alice_rank]" "[alice_result, bob_result]"]
  by (simp add: row_key_def)

text \<open>
  C8. Every row of the join is built from a row of the results table and a row of the
  ranks table that both carry the output row's \<open>personId\<close>, \<open>eventId\<close> and \<open>best\<close>,
  as equal strings and equal integers.
\<close>

theorem merge_data_keys_in_both:
  assumes "u \<in> set (merge_data results_df ranks_df)"
  shows "\<exists>res \<in> set results_df. \<exists>rk \<in> set ranks_df.
           u = join_rows res rk \<and>
           personId res = personId u \<and> eventId res = eventId u \<and> best res = best u \<and>
           personId rk = personId u \<and> eventId rk = eventId u \<and> best rk = best u"
proof -
  from assms obtain res rk where in_res: "res \<in> set results_df" and in_rk: "rk \<in> set ranks_df"
    and key: "row_key rk = row_key res" and u: "u = join_rows res rk"
    by (auto simp: set_merge_data)
  from key u have "u = join_rows res rk \<and>
      personId res = personId u \<and> eventId res = eventId u \<and> best res = best u \<and>
      personId rk = personId u \<and> eventId rk = eventId u \<and> best rk = best u"
    by (simp add: row_key_def join_rows_def)
  with in_res in_rk show ?thesis by blast
qed

theorem merge_data_keys_in_both_witness:
  "join_rows alice_result alice_rank
     \<in> set (merge_data [alice_result, bob_result] [alice_rank, carol_rank]) \<and>
   (\<exists>res \<in> set [alice_result, bob_result]. \<exists>rk \<in> set [alice_rank, carol_rank].
      personId res = ''2015ALIC01'' \<and> eventId res = ''333'' \<and> best res = 610 \<and>
      personId rk = ''2015ALIC01'' \<and> eventId rk = ''333'' \<and> best rk = 610)"
proof -
  have mem: "join_rows alice_result alice_rank
      \<in> set (merge_data [alice_result, bob_result] [alice_rank, carol_rank])"
    by (simp add: merge_data_def)
  from merge_data_keys_in_both [OF mem] have
    "\<exists>res \<in> set [alice_result, bob_result]. \<exists>rk \<in> set [alice_rank, carol_rank].
        personId res = personId (join_rows alice_result alice_rank) \<and>
        eventId res = eventId (join_rows alice_result alice_rank) \<and>
        best res = best (join_rows alice_result alice_rank) \<and>
        personId rk = personId (join_rows alice_result alice_rank) \<and>
        eventId rk = eventId (join_rows alice_result alice_rank) \<and>
        best rk = best (join_rows alice_result alice_rank)"
    by blast
  then have
    "\<exists>res \<in> set [alice_result, bob_result]. \<exists>rk \<in> set [alice_rank, carol_rank].
      personId res = ''2015ALIC01'' \<and> eventId res = ''333'' \<and> best res = 610 \<and>
      personId rk = ''2015ALIC01'' \<and> eventId rk = ''333'' \<and> best rk = 610"
    by (simp add: join_rows_def)
  with mem show ?thesis by blast
qed

section \<open>The rank query\<close>

lemma set_dropna: "set (dropna col) = {v. Some v \<in> set col}"
  by (induction col) (auto simp: dropna_def split: option.splits)

lemma dropna_Nil: "(dropna col = []) = (\<forall>x \<in> set col. x = None)"
  by (induction col) (auto simp: dropna_def split: option.splits)

lemma series_max_None: "(series_max col = None) = (\<forall>x \<in> set col. x = None)"
  by (cases "dropna col") (simp_all add: series_max_def dropna_Nil [symmetric])

lemma series_max_Some:
  assumes "series_max col = Some m"
  shows "Some m \<in> set col" and "\<And>v. Some v \<in> set col \<Longrightarrow> v \<le> m"
proof -
  from assms obtain v vs where vs: "dropna col = v # vs" and m: "m = fold max vs v"
    by (auto simp: series_max_def split: list.splits)
  have M: "m = Max (set (v # vs))" by (simp only: m Max.set_eq_fold)
  have S: "set (v # vs) = {v. Some v \<in> set col}" by (simp only: vs [symmetric] set_dropna)
  have "m \<in> set (v # vs)" unfolding M by (rule Max_in) simp_all
  then show "Some m \<in> set col" unfolding S by simp
  fix w assume "Some w \<in> set col"
  then have "w \<in> set (v # vs)" unfolding S by simp
  then show "w \<le> m" unfolding M by (intro Max_ge) simp_all
qed

lemma first_match_find:
  "(case take (Suc 0) (filter P xs) of [] \<Rightarrow> None | row # _ \<Rightarrow> Some row) = List.find P xs"
  by (induction xs) simp_all

lemma get_person_by_rank_find:
  "get_person_by_rank merged_df event_id region rank_number =
     List.find (\<lambda>row. float_eq (countryRank row)
                  (resolve_rank (query_rows merged_df event_id region) rank_number))
       (query_rows merged_df event_id region)"
  by (simp add: get_person_by_rank_def Let_def first_match_find)

lemma float_eq_Some: "float_eq a (Some m) = (a = Some m)"
  by (cases a) (auto simp: float_eq_def)

lemma float_eq_None: "float_eq a None = False"
  by (cases a) (auto simp: float_eq_def)



text \<open>
  C2. With \<open>S\<close> the rows whose \<open>eventId\<close> and \<open>personCountryId\<close> equal the given event and
  region, and some row of \<open>S\<close> with a rank that is not NaN: \<^verbatim>\<open>"lowest"\<close> resolves to a
  rank \<open>m\<close> that is the maximum of the ranks in \<open>S\<close> (no rank in \<open>S\<close> is larger, and a row
  of \<open>S\<close> has it), and \<^verbatim>\<open>get_person_by_rank\<close> returns the first row of \<open>S\<close>, in the order of
  the table, whose rank is \<open>m\<close>.
\<close>

theorem get_person_by_rank_lowest:
  fixes merged_df :: "'r::linorder unified_row list"
  assumes S: "S = filter (\<lambda>row. eventId row = event_id \<and> personCountryId row = region) merged_df"
    and ranked: "\<exists>row \<in> set S. countryRank row \<noteq> None"
  shows "\<exists>m i. resolve_rank S Lowest = Some m \<and>
           (\<forall>row \<in> set S. \<forall>v. countryRank row = Some v \<longrightarrow> v \<le> m) \<and>
           i < length S \<and> countryRank (S ! i) = Some m \<and>
           (\<forall>j < i. countryRank (S ! j) \<noteq> Some m) \<and>
           get_person_by_rank merged_df event_id region Lowest = Some (S ! i)"
proof -
  have q: "query_rows merged_df event_id region = S" by (simp add: query_rows_def S)
  have r: "resolve_rank S Lowest = series_max (map countryRank S)" by (simp add: resolve_rank_def)
  from ranked have "series_max (map countryRank S) \<noteq> None"
    by (auto simp: series_max_None)
  then obtain m where m: "series_max (map countryRank S) = Some m" by auto
  have ub: "\<forall>row \<in> set S. \<forall>v. countryRank row = Some v \<longrightarrow> v \<le> m"
    using series_max_Some(2) [OF m] by force
  from series_max_Some(1) [OF m] obtain row where "row \<in> set S" and "countryRank row = Some m"
    by auto
  then have "\<exists>row \<in> set S. float_eq (countryRank row) (Some m)" by (auto simp: float_eq_Some)
  then have "List.find (\<lambda>row. float_eq (countryRank row) (Some m)) S \<noteq> None"
    by (auto simp: find_None_iff)
  then obtain x where x: "List.find (\<lambda>row. float_eq (countryRank row) (Some m)) S = Some x" by auto
  then obtain i where i: "i < length S" "float_eq (countryRank (S ! i)) (Some m)" "x = S ! i"
    "\<forall>j < i. \<not> float_eq (countryRank (S ! j)) (Some m)"
    unfolding find_Some_iff by blast
  have "get_person_by_rank merged_df event_id region Lowest = Some (S ! i)"
    using x i(3) by (simp add: get_person_by_rank_find q r m)
  with i ub show ?thesis by (auto simp: r m float_eq_Some)
qed

theorem get_person_by_rank_lowest_witness:
  "(\<exists>row \<in> set (filter (\<lambda>row. eventId row = ''333'' \<and> personCountryId row = ''USA'') unified_example).
      countryRank row \<noteq> None) \<and>
   (\<exists>i < length (filter (\<lambda>row. eventId row = ''333'' \<and> personCountryId row = ''USA'') unified_example).
      get_person_by_rank unified_example ''333'' ''USA'' Lowest =
        Some (filter (\<lambda>row. eventId row = ''333'' \<and> personCountryId row = ''USA'') unified_example ! i)) \<and>
   get_person_by_rank unified_example ''333'' ''USA'' Lowest =
     Some \<lparr>personId = ''2016BOBB02'', eventId = ''333'', best = 700,
           personCountryId = ''USA'', personName = ''Bob'', countryRank = Some 2\<rparr>"
proof -
  let ?S = "filter (\<lambda>row. eventId row = ''333'' \<and> personCountryId row = ''USA'') unified_example"
  have ranked: "\<exists>row \<in> set ?S. countryRank row \<noteq> None" by simp
  from get_person_by_rank_lowest [OF refl ranked]
  have "\<exists>i < length ?S. get_person_by_rank unified_example ''333'' ''USA'' Lowest = Some (?S ! i)"
    by blast
  moreover have "get_person_by_rank unified_example ''333'' ''USA'' Lowest =
     Some \<lparr>personId = ''2016BOBB02'', eventId = ''333'', best = 700,
           personCountryId = ''USA'', personName = ''Bob'', countryRank = Some 2\<rparr>"
    by (simp add: get_person_by_rank_def query_rows_def resolve_rank_def series_max_def dropna_def
        float_eq_def Let_def)
  ultimately show ?thesis using ranked by blast
qed

end
